theory Spec2Isabelle
  imports Main
begin

section \<open>The development setup script \<^verbatim>\<open>setup.py\<close>\<close>

text \<open>
  The script probes the Dart SDK (\<^verbatim>\<open>dart --version\<close>), checks the version
  against the minimum \<^verbatim>\<open>(3, 10, 1)\<close> and runs \<^verbatim>\<open>dart pub get\<close> in three
  package directories. Everything outside the script is a parameter of the model:
  what \<^verbatim>\<open>subprocess.run\<close> does, which paths exist, and the interpreter's limit on
  the number of digits \<^verbatim>\<open>int()\<close> converts.

  Text is modelled by \<^typ>\<open>string\<close>, that is by sequences of code points below 256.
  A blocked subprocess is not modelled: \<^verbatim>\<open>subprocess.run\<close> is taken to come back,
  with a completed process or with an exception. \<^verbatim>\<open>print\<close>, \<^verbatim>\<open>os.chdir\<close>
  to the script's own directory and \<^verbatim>\<open>Path.exists\<close> are taken not to raise.
\<close>

subsection \<open>Exceptions, paths and the outside world\<close>

datatype py_exc =
  FileNotFoundError | PermissionError | NotADirectoryError | UnicodeDecodeError
  | ValueError | IndexError

text \<open>A \<^verbatim>\<open>Path\<close> is the list of its parts; \<^verbatim>\<open>p / "a" / "b"\<close> appends two parts.\<close>

type_synonym path = "string list"

text \<open>\<^verbatim>\<open>(returncode, stdout, stderr)\<close>\<close>

type_synonym completed = "int \<times> string \<times> string"

text \<open>
  \<^item> \<open>subprocess_run cmd cwd w\<close> is \<^verbatim>\<open>subprocess.run(cmd, cwd=cwd, capture_output=True,
    text=True)\<close> in the world \<open>w\<close>: the exception it raises or the completed process,
    and the world afterwards;
  \<^item> \<open>path_exists p w\<close> is \<^verbatim>\<open>p.exists()\<close>;
  \<^item> \<open>int_max_str_digits\<close> is \<^verbatim>\<open>sys.get_int_max_str_digits()\<close>: 4300 unless configured,
    0 when the limit is switched off (and on interpreters that have none).
\<close>

record 'w os =
  subprocess_run :: "string list \<Rightarrow> path option \<Rightarrow> 'w \<Rightarrow> (py_exc + completed) \<times> 'w"
  path_exists :: "path \<Rightarrow> 'w \<Rightarrow> bool"
  int_max_str_digits :: nat

text \<open>
  The lines the script prints, by what they say. \<open>Text\<close> is a line of plain ASCII;
  the other constructors stand for the lines with a symbol in front and carry the
  values the f-string interpolates.
\<close>

datatype line =
  Text string
  | Platform
  | DartNotFound
  | FoundDart string
  | VersionWarning string
  | PackageHeader string
  | DirNotFound path
  | DepsInstalled
  | Failed string
  | SetupComplete
  | Bullet string
  | SetupErrors

text \<open>
  The state threaded through the script: the world, the record of every
  \<^verbatim>\<open>subprocess.run\<close> call made so far (command and working directory), and the
  lines printed so far.
\<close>

record 'w state =
  world :: 'w
  calls :: "(string list \<times> path option) list"
  out :: "line list"

definition emit :: "line list \<Rightarrow> 'w state \<Rightarrow> 'w state" where
  "emit ls s = s\<lparr>out := out s @ ls\<rparr>"

subsection \<open>\<^verbatim>\<open>run_command\<close>\<close>

text \<open>
  Only \<^verbatim>\<open>FileNotFoundError\<close> is caught. The handler reads \<^verbatim>\<open>cmd[0]\<close>, which
  raises \<^verbatim>\<open>IndexError\<close> on an empty command.
\<close>

definition run_command ::
  "'w os \<Rightarrow> string list \<Rightarrow> path option \<Rightarrow> 'w state \<Rightarrow> (py_exc + completed) \<times> 'w state" where
  "run_command os cmd cwd s =
     (case subprocess_run os cmd cwd (world s) of
        (r, w') \<Rightarrow>
          (let s' = s\<lparr>world := w', calls := calls s @ [(cmd, cwd)]\<rparr> in
           case r of
             Inr (returncode, stdout, stderr) \<Rightarrow> (Inr (returncode, stdout, stderr), s')
           | Inl FileNotFoundError \<Rightarrow>
               (case cmd of
                  [] \<Rightarrow> (Inl IndexError, s')
                | c # _ \<Rightarrow> (Inr (1, [], ''Command not found: '' @ c), s'))
           | Inl e \<Rightarrow> (Inl e, s')))"

subsection \<open>Regular expression search\<close>

text \<open>
  \<^verbatim>\<open>\s\<close> and \<^verbatim>\<open>\d\<close> of a \<^verbatim>\<open>str\<close> pattern, on code points below 256: the white
  space of \<^verbatim>\<open>str.isspace\<close> and the digits 0 to 9.
\<close>

definition isspace :: "char \<Rightarrow> bool" where
  "isspace c = (let n = (of_char c :: nat) in
     (9 \<le> n \<and> n \<le> 13) \<or> (28 \<le> n \<and> n \<le> 32) \<or> n = 133 \<or> n = 160)"

definition isdigit :: "char \<Rightarrow> bool" where
  "isdigit c = (let n = (of_char c :: nat) in 48 \<le> n \<and> n \<le> 57)"

datatype cclass = Space | Digit

fun in_class :: "cclass \<Rightarrow> char \<Rightarrow> bool" where
  "in_class Space c = isspace c"
| "in_class Digit c = isdigit c"

text \<open>
  The pattern language the script needs: a literal character, a greedy \<^verbatim>\<open>*\<close> or
  \<^verbatim>\<open>+\<close> over a character class, and the parentheses of group 1.
\<close>

datatype atom = Lit char | Star cclass | Plus cclass | GroupOpen | GroupClose

text \<open>\<open>first_some f ns\<close> is the first success of \<open>f\<close> along \<open>ns\<close>: backtracking.\<close>

fun first_some :: "(nat \<Rightarrow> 'a option) \<Rightarrow> nat list \<Rightarrow> 'a option" where
  "first_some f [] = None"
| "first_some f (n # ns) = (case f n of Some r \<Rightarrow> Some r | None \<Rightarrow> first_some f ns)"

text \<open>The length of the longest run of the class at the front of the text.\<close>

definition run_length :: "cclass \<Rightarrow> string \<Rightarrow> nat" where
  "run_length k s = length (takeWhile (in_class k) s)"

text \<open>
  \<open>rmatch p s g\<close> matches the pattern \<open>p\<close> at the front of \<open>s\<close> and gives the text
  of group 1. A greedy quantifier takes the longest run first and gives characters
  back one at a time while the rest of the pattern fails. \<open>g\<close> holds the text from
  the opening parenthesis on, cut at the closing one.
\<close>

primrec rmatch :: "atom list \<Rightarrow> string \<Rightarrow> string \<Rightarrow> string option" where
  "rmatch [] s g = Some g"
| "rmatch (a # as) s g =
     (case a of
        Lit c \<Rightarrow> (case s of [] \<Rightarrow> None | x # xs \<Rightarrow> if x = c then rmatch as xs g else None)
      | Star k \<Rightarrow> first_some (\<lambda>n. rmatch as (drop n s) g) (rev [0 ..< Suc (run_length k s)])
      | Plus k \<Rightarrow> first_some (\<lambda>n. rmatch as (drop n s) g) (rev [1 ..< Suc (run_length k s)])
      | GroupOpen \<Rightarrow> rmatch as s s
      | GroupClose \<Rightarrow> rmatch as s (take (length g - length s) g))"

text \<open>\<^verbatim>\<open>re.search\<close>: the match at the leftmost position that has one.\<close>

fun re_search :: "atom list \<Rightarrow> string \<Rightarrow> string option" where
  "re_search p [] = rmatch p [] []"
| "re_search p (c # cs) =
     (case rmatch p (c # cs) [] of Some g \<Rightarrow> Some g | None \<Rightarrow> re_search p cs)"

text \<open>\<^verbatim>\<open>r"Dart SDK version:\s*(\d+\.\d+\.\d+)"\<close>\<close>

definition version_label :: string where
  "version_label = ''Dart SDK version:''"

definition dart_pattern :: "atom list" where
  "dart_pattern = map Lit version_label @
     [Star Space, GroupOpen, Plus Digit, Lit CHR ''.'', Plus Digit, Lit CHR ''.'', Plus Digit,
      GroupClose]"

subsection \<open>\<^verbatim>\<open>check_dart_version\<close>\<close>

definition check_dart_version ::
  "'w os \<Rightarrow> 'w state \<Rightarrow> (py_exc + string option) \<times> 'w state" where
  "check_dart_version os s =
     (case run_command os [''dart'', ''--version''] None s of
        (Inl e, s') \<Rightarrow> (Inl e, s')
      | (Inr (code, stdout, stderr), s') \<Rightarrow>
          if code \<noteq> 0 then (Inr None, s')
          else (let output = stdout @ stderr in
                case re_search dart_pattern output of
                  Some v \<Rightarrow> (Inr (Some v), s')
                | None \<Rightarrow> (Inr None, s')))"

subsection \<open>\<^verbatim>\<open>version_tuple\<close>\<close>

text \<open>
  \<^verbatim>\<open>version.split(".")\<close>: the pieces between the dots, empty pieces included;
  there is always at least one piece. \<open>cur\<close> is the piece being read.
\<close>

fun split_from :: "char \<Rightarrow> string \<Rightarrow> string \<Rightarrow> string list" where
  "split_from sep cur [] = [cur]"
| "split_from sep cur (c # cs) =
     (if c = sep then cur # split_from sep [] cs else split_from sep (cur @ [c]) cs)"

definition str_split :: "char \<Rightarrow> string \<Rightarrow> string list" where
  "str_split sep s = split_from sep [] s"

text \<open>
  The white space \<^verbatim>\<open>int()\<close> skips before and after a literal: tab to carriage
  return and the space, which its parser skips, and the two characters from 128 to 255
  that are white space for \<^verbatim>\<open>str\<close> (133 and 160), which \<^verbatim>\<open>int()\<close> turns into
  spaces first. The separators 28 to 31 are white space for \<^verbatim>\<open>\s\<close> and
  \<^verbatim>\<open>str.isspace\<close>, but \<^verbatim>\<open>int()\<close> does not skip them.
\<close>

definition int_space :: "char \<Rightarrow> bool" where
  "int_space c = (let n = (of_char c :: nat) in
     (9 \<le> n \<and> n \<le> 13) \<or> n = 32 \<or> n = 133 \<or> n = 160)"

definition strip :: "string \<Rightarrow> string" where
  "strip s = rev (dropWhile int_space (rev (dropWhile int_space s)))"

text \<open>
  The digits of an integer literal: a digit first and last, single underscores
  allowed between digits.
\<close>

fun digits_ok :: "string \<Rightarrow> bool" where
  "digits_ok [] = False"
| "digits_ok [c] = isdigit c"
| "digits_ok (c # d # cs) =
     (isdigit c \<and> (if d = CHR ''_'' then digits_ok cs else digits_ok (d # cs)))"

definition digit_value :: "char \<Rightarrow> int" where
  "digit_value c = int (of_char c) - 48"

definition dec_value :: "string \<Rightarrow> int" where
  "dec_value ds = foldl (\<lambda>a c. 10 * a + digit_value c) 0 ds"

text \<open>
  \<^verbatim>\<open>int(x)\<close> on a string, base 10: the white space at both ends is skipped, then
  come an optional sign and the digits, and nothing else. With a
  limit \<open>lim > 0\<close>, more than \<open>lim\<close> digits raise \<^verbatim>\<open>ValueError\<close> as a malformed
  literal does (underscores and the sign are not counted; the interpreter applies the
  limit only above 640 digits, and accepts no limit from 1 to 639).
\<close>

definition py_int :: "nat \<Rightarrow> string \<Rightarrow> py_exc + int" where
  "py_int lim x =
     (let t = strip x;
          (sign, body) =
            (case t of
               [] \<Rightarrow> (1, t)
             | c # r \<Rightarrow> if c = CHR ''-'' then (- 1, r) else if c = CHR ''+'' then (1, r) else (1, t))
      in if \<not> digits_ok body then Inl ValueError
         else (let ds = filter (\<lambda>c. c \<noteq> CHR ''_'') body in
               if 640 < length ds \<and> 0 < lim \<and> lim < length ds then Inl ValueError
               else Inr (sign * dec_value ds)))"

text \<open>
  \<^verbatim>\<open>tuple(int(x) for x in ...)\<close>: the components are converted from left to right
  and the first exception ends the conversion.
\<close>

fun int_each :: "nat \<Rightarrow> string list \<Rightarrow> py_exc + int list" where
  "int_each lim [] = Inr []"
| "int_each lim (x # xs) =
     (case py_int lim x of
        Inl e \<Rightarrow> Inl e
      | Inr n \<Rightarrow> (case int_each lim xs of Inl e \<Rightarrow> Inl e | Inr ns \<Rightarrow> Inr (n # ns)))"

definition version_tuple :: "nat \<Rightarrow> string \<Rightarrow> py_exc + int list" where
  "version_tuple lim version = int_each lim (str_split CHR ''.'' version)"

text \<open>
  \<^verbatim>\<open>a < b\<close> on tuples of integers: the first position where the two differ decides;
  when there is none, the shorter tuple is the smaller.
\<close>

fun tuple_lt :: "int list \<Rightarrow> int list \<Rightarrow> bool" where
  "tuple_lt [] [] = False"
| "tuple_lt [] (y # ys) = True"
| "tuple_lt (x # xs) [] = False"
| "tuple_lt (x # xs) (y # ys) = (if x = y then tuple_lt xs ys else x < y)"

subsection \<open>\<^verbatim>\<open>install_package_deps\<close>\<close>

definition install_package_deps ::
  "'w os \<Rightarrow> path \<Rightarrow> 'w state \<Rightarrow> (py_exc + bool) \<times> 'w state" where
  "install_package_deps os package_path s =
     (case run_command os [''dart'', ''pub'', ''get''] (Some package_path) s of
        (Inl e, s') \<Rightarrow> (Inl e, s')
      | (Inr (code, stdout, stderr), s') \<Rightarrow>
          if code \<noteq> 0 then (Inr False, emit [Failed stderr] s')
          else (Inr True, s'))"

subsection \<open>\<^verbatim>\<open>main\<close>\<close>

definition min_version :: "int list" where
  "min_version = [3, 10, 1]"

definition packages :: "string list" where
  "packages = [''entidb_sync_protocol'', ''entidb_sync_client'', ''entidb_sync_server'']"

text \<open>
  The \<^verbatim>\<open>for\<close> loop, from the packages still to come and the current value of
  \<^verbatim>\<open>success\<close>. An exception leaves the loop and the function.
\<close>

fun install_all ::
  "'w os \<Rightarrow> path \<Rightarrow> string list \<Rightarrow> bool \<Rightarrow> 'w state \<Rightarrow> (py_exc + bool) \<times> 'w state" where
  "install_all os repo_root [] success s = (Inr success, s)"
| "install_all os repo_root (package # rest) success s =
     (let package_path = repo_root @ [''packages'', package] in
      if \<not> path_exists os package_path (world s) then
        install_all os repo_root rest False
          (emit [PackageHeader package, DirNotFound package_path] s)
      else
        (case install_package_deps os package_path (emit [PackageHeader package] s) of
           (Inl e, s') \<Rightarrow> (Inl e, s')
         | (Inr ok, s') \<Rightarrow>
             if ok then install_all os repo_root rest success (emit [DepsInstalled] s')
             else install_all os repo_root rest False s'))"

text \<open>
  \<open>repo_root\<close> is \<^verbatim>\<open>Path(__file__).parent.resolve()\<close> and \<open>w\<close> the world the
  script starts in. The result is the exit status \<^verbatim>\<open>main\<close> returns, or the
  exception that leaves it.
\<close>

definition main :: "'w os \<Rightarrow> path \<Rightarrow> 'w \<Rightarrow> (py_exc + int) \<times> 'w state" where
  "main os repo_root w =
     (let s0 = \<lparr>world = w, calls = [],
                out = [Text ''EntiDB Sync - Development Setup'',
                       Text ''================================'',
                       Platform, Text [], Text ''Checking Dart SDK version...'']\<rparr>
      in case check_dart_version os s0 of
           (Inl e, s1) \<Rightarrow> (Inl e, s1)
         | (Inr None, s1) \<Rightarrow> (Inr 1, emit [DartNotFound] s1)
         | (Inr (Some dart_version), s1) \<Rightarrow>
             (let s2 = emit [FoundDart dart_version] s1 in
              case version_tuple (int_max_str_digits os) dart_version of
                Inl e \<Rightarrow> (Inl e, s2)
              | Inr t \<Rightarrow>
                  if tuple_lt t min_version then
                    (Inr 1, emit [VersionWarning dart_version,
                                  Text ''   Upgrade with: dart channel stable && dart upgrade''] s2)
                  else
                    (case install_all os repo_root packages True
                            (emit [Text [], Text ''Installing dependencies...'', Text []] s2) of
                       (Inl e, s3) \<Rightarrow> (Inl e, s3)
                     | (Inr success, s3) \<Rightarrow>
                         if success then
                           (Inr 0, emit [Text [], SetupComplete, Text [], Text ''Next steps:'',
                                         Bullet ''Review documentation: doc/architecture.md'',
                                         Bullet ''Run tests: dart test packages/<package>/test'',
                                         Bullet ''Start development: see CONTRIBUTING.md''] s3)
                         else (Inr 1, emit [Text [], SetupErrors] s3))))"

subsection \<open>Notions the statements use\<close>

text \<open>
  A match of the version pattern at the front of a text, in words: the label, any
  white space, then three non-empty runs of digits separated by dots, the last run
  running as far as the digits go. \<open>v\<close> is the matched version.
\<close>

definition digit_run :: "string \<Rightarrow> bool" where
  "digit_run d = (d \<noteq> [] \<and> (\<forall>c \<in> set d. isdigit c))"

definition run_ends :: "string \<Rightarrow> bool" where
  "run_ends rest = (case rest of [] \<Rightarrow> True | c # _ \<Rightarrow> \<not> isdigit c)"

definition version_at :: "string \<Rightarrow> string \<Rightarrow> bool" where
  "version_at t v = (\<exists>ws d1 d2 d3 rest.
      t = version_label @ ws @ d1 @ ''.'' @ d2 @ ''.'' @ d3 @ rest
      \<and> (\<forall>c \<in> set ws. isspace c) \<and> digit_run d1 \<and> digit_run d2 \<and> digit_run d3
      \<and> run_ends rest \<and> v = d1 @ ''.'' @ d2 @ ''.'' @ d3)"

text \<open>
  \<^verbatim>\<open>sep.join(parts)\<close>. A version of several components is its components joined
  by dots.
\<close>

fun join :: "string \<Rightarrow> string list \<Rightarrow> string" where
  "join sep [] = []"
| "join sep [p] = p"
| "join sep (p # q # ps) = p @ sep @ join sep (q # ps)"





text \<open>
  What \<^verbatim>\<open>int()\<close> accepts, in words. \<open>int_literal x neg gs\<close>: the text \<open>x\<close> is
  white space, then a sign or none (\<open>neg\<close> tells whether it is the minus sign), then
  the groups of digits \<open>gs\<close> with one underscore between two groups, then white space.
  \<open>within_limit lim n\<close>: \<open>n\<close> digits pass the digit limit \<open>lim\<close>, which is not
  applied up to 640 digits and is off at 0. \<open>int_accepts lim x n\<close>: \<open>x\<close> is such a
  literal, within the limit, and \<open>n\<close> is its value.
\<close>

definition int_literal :: "string \<Rightarrow> bool \<Rightarrow> string list \<Rightarrow> bool" where
  "int_literal x neg gs = (\<exists>a sgn b. x = a @ sgn @ join ''_'' gs @ b
      \<and> (\<forall>c \<in> set a. int_space c) \<and> (\<forall>c \<in> set b. int_space c)
      \<and> (if neg then sgn = ''-'' else sgn = [] \<or> sgn = ''+'')
      \<and> gs \<noteq> [] \<and> (\<forall>g \<in> set gs. digit_run g))"

definition within_limit :: "nat \<Rightarrow> nat \<Rightarrow> bool" where
  "within_limit lim n = (n \<le> 640 \<or> lim = 0 \<or> n \<le> lim)"

definition int_value :: "bool \<Rightarrow> string list \<Rightarrow> int" where
  "int_value neg gs = (if neg then - dec_value (concat gs) else dec_value (concat gs))"

definition int_accepts :: "nat \<Rightarrow> string \<Rightarrow> int \<Rightarrow> bool" where
  "int_accepts lim x n = (\<exists>neg gs. int_literal x neg gs
      \<and> within_limit lim (length (concat gs)) \<and> n = int_value neg gs)"





text \<open>
  A world for concrete runs: \<^verbatim>\<open>dart --version\<close> ends as \<open>probe\<close> says, the paths
  \<open>present\<close> holds of exist, and a launch in a directory ends as \<open>install\<close> says.
  Nothing changes, so the world is \<open>()\<close>.
\<close>

definition scripted_os ::
  "(py_exc + completed) \<Rightarrow> (path \<Rightarrow> bool) \<Rightarrow> (path \<Rightarrow> py_exc + completed) \<Rightarrow> nat \<Rightarrow> unit os" where
  "scripted_os probe present install lim =
     \<lparr>subprocess_run =
        (\<lambda>cmd cwd w.
           if cmd = [''dart'', ''--version''] then (probe, w)
           else (case cwd of None \<Rightarrow> (Inl FileNotFoundError, w) | Some p \<Rightarrow> (install p, w))),
      path_exists = (\<lambda>p w. present p),
      int_max_str_digits = lim\<rparr>"

definition fresh :: "unit state" where
  "fresh = \<lparr>world = (), calls = [], out = []\<rparr>"

text \<open>Parts of concrete worlds.\<close>

definition everything_exists :: "path \<Rightarrow> bool" where
  "everything_exists p = True"

definition installs_ok :: "path \<Rightarrow> py_exc + completed" where
  "installs_ok p = Inr (0, ''Got dependencies!'', [])"

definition silent_failure :: "path \<Rightarrow> py_exc + completed" where
  "silent_failure p = Inr (65, ''Resolving dependencies...'', [])"

definition loud_failure :: "path \<Rightarrow> py_exc + completed" where
  "loud_failure p = Inr (65, [], ''version solving failed.'')"

text \<open>\<^verbatim>\<open>dart\<close> is on the path but may not be executed.\<close>

definition denied_os :: "unit os" where
  "denied_os = scripted_os (Inl PermissionError) everything_exists installs_ok 4300"

text \<open>\<^verbatim>\<open>dart --version\<close> prints a version whose last number has 4301 digits.\<close>

definition long_version_os :: "unit os" where
  "long_version_os =
     scripted_os (Inr (0, ''Dart SDK version: 1.1.'' @ replicate 4301 CHR ''1'', []))
       everything_exists installs_ok 4300"





section \<open>The version pattern\<close>

subsection \<open>Backtracking over a run\<close>

lemma first_some_None: "(\<And>n. n \<in> set ns \<Longrightarrow> f n = None) \<Longrightarrow> first_some f ns = None"
  by (induction ns) auto

lemma first_some_SomeD: "first_some f ns = Some v \<Longrightarrow> \<exists>n \<in> set ns. f n = Some v"
  by (induction ns) (auto split: option.splits)

lemma first_some_greedy:
  assumes "lo \<le> m" and "\<And>n. lo \<le> n \<Longrightarrow> n < m \<Longrightarrow> f n = None"
  shows "first_some f (rev [lo ..< Suc m]) = f m"
proof -
  have "first_some f (rev [lo ..< m]) = None"
    using assms(2) by (intro first_some_None) auto
  with assms(1) show ?thesis by (simp split: option.splits)
qed

lemma isdigit_not_isspace: "isdigit c \<Longrightarrow> \<not> isspace c"
  by (auto simp: isdigit_def isspace_def Let_def)

lemma dot_not_digit [simp]: "\<not> isdigit CHR ''.''"
  by (simp add: isdigit_def)

lemma run_length_append:
  "\<forall>c \<in> set xs. in_class k c \<Longrightarrow> (case ys of [] \<Rightarrow> True | y # _ \<Rightarrow> \<not> in_class k y)
    \<Longrightarrow> run_length k (xs @ ys) = length xs"
  by (auto simp: run_length_def takeWhile_append2 split: list.splits)

lemma take_takeWhile_le:
  "n \<le> length (takeWhile P s) \<Longrightarrow> take n s = take n (takeWhile P s)"
proof (induction s arbitrary: n)
  case Nil
  then show ?case by simp
next
  case (Cons a s)
  then show ?case by (cases n) (auto split: if_splits)
qed

lemma take_run_length: "n \<le> run_length k s \<Longrightarrow> \<forall>c \<in> set (take n s). in_class k c"
  unfolding run_length_def
  by (metis in_set_takeD set_takeWhileD take_takeWhile_le)

lemma rmatch_lits:
  "rmatch (map Lit l @ p) (l @ s) g = rmatch p s g"
  by (induction l) auto

lemma rmatch_litsD:
  "rmatch (map Lit l @ p) t g = Some v \<Longrightarrow> \<exists>s. t = l @ s \<and> rmatch p s g = Some v"
  by (induction l arbitrary: t) (auto split: list.splits if_splits)

lemma in_class_Digit: "in_class Digit = isdigit"
  by (rule ext) simp

lemma drop_run_head:
  assumes "n < run_length k s"
  shows "\<exists>c r. drop n s = c # r \<and> in_class k c"
proof -
  from assms have len: "n < length s"
    unfolding run_length_def using length_takeWhile_le [of "in_class k" s] by simp
  have "\<forall>c \<in> set (take (Suc n) s). in_class k c"
    using assms by (intro take_run_length) simp
  moreover have "s ! n \<in> set (take (Suc n) s)"
    using len by (simp add: take_Suc_conv_app_nth)
  ultimately have "in_class k (s ! n)" by blast
  moreover have "drop n s = s ! n # drop (Suc n) s"
    using len by (simp add: Cons_nth_drop_Suc)
  ultimately show ?thesis by blast
qed

text \<open>
  Each quantifier of the pattern is followed by something its own class cannot match,
  so giving characters back never helps: the longest run is the only one that can
  succeed. First from the text to the match.
\<close>

lemma plus_digit_dot:
  assumes "digit_run d"
  shows "rmatch (Plus Digit # Lit CHR ''.'' # p) (d @ CHR ''.'' # s) g = rmatch p s g"
proof -
  let ?t = "d @ CHR ''.'' # s"
  have m: "run_length Digit ?t = length d"
    using assms by (intro run_length_append) (auto simp: digit_run_def)
  have low: "rmatch (Lit CHR ''.'' # p) (drop n ?t) g = None" if "n < length d" for n
  proof -
    from that m obtain c r where "drop n ?t = c # r" "in_class Digit c"
      using drop_run_head [of n Digit ?t] by auto
    then show ?thesis by auto
  qed
  have "1 \<le> length d" using assms by (cases d) (auto simp: digit_run_def)
  then have "first_some (\<lambda>n. rmatch (Lit CHR ''.'' # p) (drop n ?t) g) (rev [1 ..< Suc (length d)])
      = rmatch (Lit CHR ''.'' # p) (drop (length d) ?t) g"
    using low by (intro first_some_greedy) auto
  then show ?thesis using m by simp
qed

lemma plus_digit_close:
  assumes "digit_run d" and "run_ends rest"
  shows "rmatch [Plus Digit, GroupClose] (d @ rest) g = Some (take (length g - length rest) g)"
proof -
  have m: "run_length Digit (d @ rest) = length d"
    using assms by (intro run_length_append) (auto simp: digit_run_def run_ends_def split: list.splits)
  have "1 \<le> length d" using assms by (cases d) (auto simp: digit_run_def)
  then have "rev [1 ..< Suc (length d)] = length d # rev [1 ..< length d]" by simp
  then show ?thesis using m by simp
qed

lemma star_space_open:
  assumes "\<forall>c \<in> set ws. isspace c" and "s = c # r" and "isdigit c"
  shows "rmatch (Star Space # GroupOpen # Plus Digit # p) (ws @ s) g = rmatch (Plus Digit # p) s s"
proof -
  let ?t = "ws @ s"
  let ?f = "\<lambda>n. rmatch (GroupOpen # Plus Digit # p) (drop n ?t) g"
  have m: "run_length Space ?t = length ws"
    using assms by (intro run_length_append) (auto simp: isdigit_not_isspace)
  have low: "?f n = None" if "n < length ws" for n
  proof -
    from that m obtain c' r' where d: "drop n ?t = c' # r'" and "in_class Space c'"
      using drop_run_head [of n Space ?t] by auto
    then have "\<not> isdigit c'" using isdigit_not_isspace by auto
    then have "run_length Digit (c' # r') = 0" by (simp add: run_length_def)
    then show ?thesis using d by simp
  qed
  have "first_some ?f (rev [0 ..< Suc (length ws)]) = ?f (length ws)"
    using low by (intro first_some_greedy) auto
  then show ?thesis using m by simp
qed

text \<open>And from the match to the text.\<close>

lemma first_some_runD:
  assumes "first_some f (rev [lo ..< Suc (run_length k s)]) = Some v"
  shows "\<exists>n. lo \<le> n \<and> f n = Some v \<and> (\<forall>c \<in> set (take n s). in_class k c)"
proof -
  from first_some_SomeD [OF assms] obtain n where
    "lo \<le> n" "n \<le> run_length k s" "f n = Some v" by auto
  then show ?thesis using take_run_length by blast
qed

lemma plus_digit_dotD:
  assumes "rmatch (Plus Digit # Lit CHR ''.'' # p) t g = Some v"
  shows "\<exists>d s. t = d @ CHR ''.'' # s \<and> digit_run d \<and> rmatch p s g = Some v"
proof -
  from assms obtain n where n: "1 \<le> n"
    and f: "rmatch (Lit CHR ''.'' # p) (drop n t) g = Some v"
    and d: "\<forall>c \<in> set (take n t). in_class Digit c"
    using first_some_runD [of "\<lambda>n. rmatch (Lit CHR ''.'' # p) (drop n t) g" 1 Digit t v] by auto
  from f obtain s where s: "drop n t = CHR ''.'' # s" and r: "rmatch p s g = Some v"
    by (auto split: list.splits if_splits)
  have t: "t = take n t @ CHR ''.'' # s" using s by (metis append_take_drop_id)
  have "take n t \<noteq> []" using n s by auto
  then have "digit_run (take n t)" using d by (simp add: digit_run_def)
  with t r show ?thesis by blast
qed

lemma plus_digit_closeD:
  assumes "rmatch [Plus Digit, GroupClose] t g = Some v"
  shows "\<exists>d rest. t = d @ rest \<and> digit_run d \<and> run_ends rest \<and> v = take (length g - length rest) g"
proof -
  let ?m = "run_length Digit t"
  let ?d = "takeWhile isdigit t" and ?r = "dropWhile isdigit t"
  have pos: "1 \<le> ?m"
  proof (rule ccontr)
    assume "\<not> 1 \<le> ?m"
    then have "?m = 0" by simp
    with assms show False by simp
  qed
  then have "rev [1 ..< Suc ?m] = ?m # rev [1 ..< ?m]" by simp
  with assms have v: "v = take (length g - length (drop ?m t)) g" by simp
  have dr: "drop ?m t = ?r" by (simp add: run_length_def in_class_Digit dropWhile_eq_drop)
  have "digit_run ?d"
    using pos by (auto simp: digit_run_def run_length_def in_class_Digit dest: set_takeWhileD)
  moreover have "run_ends ?r"
  proof (cases ?r)
    case Nil
    show ?thesis unfolding run_ends_def Nil by simp
  next
    case (Cons a l)
    then have "?r \<noteq> []" by simp
    then have "\<not> isdigit (hd ?r)" by (rule hd_dropWhile)
    then have "\<not> isdigit a" unfolding Cons by simp
    then show ?thesis unfolding run_ends_def Cons by simp
  qed
  moreover have "t = ?d @ ?r" by simp
  ultimately show ?thesis using v dr by metis
qed

lemma star_space_openD:
  assumes "rmatch (Star Space # GroupOpen # p) t g = Some v"
  shows "\<exists>ws s. t = ws @ s \<and> (\<forall>c \<in> set ws. isspace c) \<and> rmatch p s s = Some v"
proof -
  from assms obtain n where
    f: "rmatch (GroupOpen # p) (drop n t) g = Some v"
    and d: "\<forall>c \<in> set (take n t). in_class Space c"
    using first_some_runD [of "\<lambda>n. rmatch (GroupOpen # p) (drop n t) g" 0 Space t v] by auto
  have "t = take n t @ drop n t" by simp
  moreover have "\<forall>c \<in> set (take n t). isspace c" using d by simp
  moreover have "rmatch p (drop n t) (drop n t) = Some v" using f by simp
  ultimately show ?thesis by blast
qed

lemma rmatch_dart_version_at:
  assumes "version_at t v"
  shows "rmatch dart_pattern t g = Some v"
proof -
  from assms obtain ws d1 d2 d3 rest where
    t: "t = version_label @ ws @ d1 @ CHR ''.'' # d2 @ CHR ''.'' # d3 @ rest"
    and ws: "\<forall>c \<in> set ws. isspace c"
    and d: "digit_run d1" "digit_run d2" "digit_run d3" and rest: "run_ends rest"
    and v: "v = d1 @ CHR ''.'' # d2 @ CHR ''.'' # d3"
    unfolding version_at_def by auto
  let ?s = "d1 @ CHR ''.'' # d2 @ CHR ''.'' # d3 @ rest"
  obtain c r where c: "d1 = c # r" "isdigit c"
    using d(1) by (cases d1) (auto simp: digit_run_def)
  then have s: "?s = c # (r @ CHR ''.'' # d2 @ CHR ''.'' # d3 @ rest)" by simp
  have "rmatch dart_pattern t g =
      rmatch [Star Space, GroupOpen, Plus Digit, Lit CHR ''.'', Plus Digit, Lit CHR ''.'',
              Plus Digit, GroupClose] (ws @ ?s) g"
    unfolding dart_pattern_def t by (rule rmatch_lits)
  also have "\<dots> = rmatch [Plus Digit, Lit CHR ''.'', Plus Digit, Lit CHR ''.'',
              Plus Digit, GroupClose] ?s ?s"
    using ws s c(2) by (rule star_space_open)
  also have "\<dots> = rmatch [Plus Digit, Lit CHR ''.'', Plus Digit, GroupClose]
              (d2 @ CHR ''.'' # d3 @ rest) ?s"
    using d(1) by (rule plus_digit_dot)
  also have "\<dots> = rmatch [Plus Digit, GroupClose] (d3 @ rest) ?s"
    using d(2) by (rule plus_digit_dot)
  also have "\<dots> = Some (take (length ?s - length rest) ?s)"
    using d(3) rest by (rule plus_digit_close)
  also have "take (length ?s - length rest) ?s = v"
    unfolding v by simp
  finally show ?thesis .
qed

lemma version_at_rmatch_dart:
  assumes "rmatch dart_pattern t g = Some v"
  shows "version_at t v"
proof -
  from assms obtain t1 where t1: "t = version_label @ t1"
    and m1: "rmatch [Star Space, GroupOpen, Plus Digit, Lit CHR ''.'', Plus Digit,
                     Lit CHR ''.'', Plus Digit, GroupClose] t1 g = Some v"
    unfolding dart_pattern_def using rmatch_litsD by blast
  from star_space_openD [OF m1] obtain ws s where t2: "t1 = ws @ s"
    and ws: "\<forall>c \<in> set ws. isspace c"
    and m2: "rmatch [Plus Digit, Lit CHR ''.'', Plus Digit, Lit CHR ''.'', Plus Digit,
                     GroupClose] s s = Some v"
    by blast
  from plus_digit_dotD [OF m2] obtain d1 s1 where t3: "s = d1 @ CHR ''.'' # s1"
    and d1: "digit_run d1"
    and m3: "rmatch [Plus Digit, Lit CHR ''.'', Plus Digit, GroupClose] s1 s = Some v"
    by blast
  from plus_digit_dotD [OF m3] obtain d2 s2 where t4: "s1 = d2 @ CHR ''.'' # s2"
    and d2: "digit_run d2"
    and m4: "rmatch [Plus Digit, GroupClose] s2 s = Some v"
    by blast
  from plus_digit_closeD [OF m4] obtain d3 rest where t5: "s2 = d3 @ rest"
    and d3: "digit_run d3" and rest: "run_ends rest"
    and v: "v = take (length s - length rest) s"
    by blast
  have "v = d1 @ ''.'' @ d2 @ ''.'' @ d3"
    unfolding v t3 t4 t5 by simp
  moreover have "t = version_label @ ws @ d1 @ ''.'' @ d2 @ ''.'' @ d3 @ rest"
    unfolding t1 t2 t3 t4 t5 by simp
  ultimately show ?thesis
    unfolding version_at_def using ws d1 d2 d3 rest by blast
qed

lemma rmatch_dart_iff: "rmatch dart_pattern t g = Some v \<longleftrightarrow> version_at t v"
  using rmatch_dart_version_at version_at_rmatch_dart by blast

lemma re_search_None_iff:
  "re_search p s = None \<longleftrightarrow> (\<forall>i \<le> length s. rmatch p (drop i s) [] = None)"
proof (induction s)
  case Nil
  then show ?case by simp
next
  case (Cons c cs)
  have "(\<forall>i \<le> length (c # cs). rmatch p (drop i (c # cs)) [] = None) \<longleftrightarrow>
        rmatch p (c # cs) [] = None \<and> (\<forall>i \<le> length cs. rmatch p (drop i cs) [] = None)"
    (is "?L \<longleftrightarrow> ?R")
  proof
    assume l: ?L
    then have "rmatch p (drop 0 (c # cs)) [] = None" by blast
    moreover have "rmatch p (drop i cs) [] = None" if "i \<le> length cs" for i
      using l [rule_format, of "Suc i"] that by simp
    ultimately show ?R by simp
  next
    assume r: ?R
    show ?L
    proof (intro allI impI)
      fix i assume "i \<le> length (c # cs)"
      then show "rmatch p (drop i (c # cs)) [] = None"
        using r by (cases i) auto
    qed
  qed
  with Cons show ?case by (simp split: option.splits)
qed

lemma re_search_Some_iff:
  "re_search p s = Some v \<longleftrightarrow>
     (\<exists>i \<le> length s. rmatch p (drop i s) [] = Some v
        \<and> (\<forall>j < i. rmatch p (drop j s) [] = None))"
proof (induction s)
  case Nil
  then show ?case by simp
next
  case (Cons c cs)
  show ?case
  proof (cases "rmatch p (c # cs) []")
    case (Some u)
    have "(\<exists>i \<le> length (c # cs). rmatch p (drop i (c # cs)) [] = Some v
        \<and> (\<forall>j < i. rmatch p (drop j (c # cs)) [] = None)) \<longleftrightarrow> u = v"
    proof
      assume "\<exists>i \<le> length (c # cs). rmatch p (drop i (c # cs)) [] = Some v
        \<and> (\<forall>j < i. rmatch p (drop j (c # cs)) [] = None)"
      then obtain i where i: "rmatch p (drop i (c # cs)) [] = Some v"
        "\<forall>j < i. rmatch p (drop j (c # cs)) [] = None" by blast
      have "i = 0"
      proof (rule ccontr)
        assume "i \<noteq> 0"
        then have "rmatch p (drop 0 (c # cs)) [] = None" using i(2) by blast
        with Some show False by simp
      qed
      with i(1) Some show "u = v" by simp
    next
      assume "u = v"
      with Some have "rmatch p (drop 0 (c # cs)) [] = Some v
        \<and> (\<forall>j < 0. rmatch p (drop j (c # cs)) [] = None)" by simp
      then show "\<exists>i \<le> length (c # cs). rmatch p (drop i (c # cs)) [] = Some v
        \<and> (\<forall>j < i. rmatch p (drop j (c # cs)) [] = None)" by blast
    qed
    with Some show ?thesis by simp
  next
    case None
    have "(\<exists>i \<le> length (c # cs). rmatch p (drop i (c # cs)) [] = Some v
        \<and> (\<forall>j < i. rmatch p (drop j (c # cs)) [] = None)) \<longleftrightarrow>
      (\<exists>i \<le> length cs. rmatch p (drop i cs) [] = Some v
        \<and> (\<forall>j < i. rmatch p (drop j cs) [] = None))" (is "?L \<longleftrightarrow> ?R")
    proof
      assume ?L
      then obtain i where i: "i \<le> length (c # cs)" "rmatch p (drop i (c # cs)) [] = Some v"
        "\<forall>j < i. rmatch p (drop j (c # cs)) [] = None" by blast
      with None obtain k where k: "i = Suc k" by (cases i) auto
      have "\<forall>j < k. rmatch p (drop j cs) [] = None"
      proof (intro allI impI)
        fix j assume "j < k"
        then have "Suc j < i" using k by simp
        then have "rmatch p (drop (Suc j) (c # cs)) [] = None" using i(3) by blast
        then show "rmatch p (drop j cs) [] = None" by simp
      qed
      with i k show ?R by auto
    next
      assume ?R
      then obtain i where i: "i \<le> length cs" "rmatch p (drop i cs) [] = Some v"
        "\<forall>j < i. rmatch p (drop j cs) [] = None" by blast
      have "\<forall>j < Suc i. rmatch p (drop j (c # cs)) [] = None"
      proof (intro allI impI)
        fix j assume "j < Suc i"
        then show "rmatch p (drop j (c # cs)) [] = None"
          using None i(3) by (cases j) auto
      qed
      moreover have "Suc i \<le> length (c # cs)" "rmatch p (drop (Suc i) (c # cs)) [] = Some v"
        using i by auto
      ultimately show ?L by blast
    qed
    with None Cons show ?thesis by simp
  qed
qed

section \<open>Comparing version tuples\<close>





section \<open>Running a command\<close>

text \<open>
  C5, as the claim has it, fails: \<^verbatim>\<open>run_command\<close> catches \<^verbatim>\<open>FileNotFoundError\<close>
  and nothing else. When \<^verbatim>\<open>dart\<close> is found but may not be executed,
  \<^verbatim>\<open>subprocess.run\<close> raises \<^verbatim>\<open>PermissionError\<close> and \<^verbatim>\<open>run_command\<close> lets it
  through.
\<close>

theorem run_command_propagates:
  "fst (run_command denied_os [''dart'', ''--version''] None fresh) = Inl PermissionError"
  by (simp add: run_command_def denied_os_def scripted_os_def fresh_def)

text \<open>
  C5, amended. \<^verbatim>\<open>run_command\<close> returns what the completed process gave. When
  \<^verbatim>\<open>subprocess.run\<close> raises \<^verbatim>\<open>FileNotFoundError\<close> on a non-empty command it
  returns exit code 1, empty standard output and the error text
  \<^verbatim>\<open>Command not found: \<close> followed by the command's first word. Every other exception
  of \<^verbatim>\<open>subprocess.run\<close> leaves \<^verbatim>\<open>run_command\<close>. The call is recorded in each case.
\<close>

theorem run_command_result:
  assumes "subprocess_run os cmd cwd (world s) = (r, w')"
  shows "(\<forall>c. r = Inr c \<longrightarrow> fst (run_command os cmd cwd s) = Inr c)
    \<and> (r = Inl FileNotFoundError \<longrightarrow> cmd \<noteq> [] \<longrightarrow>
         fst (run_command os cmd cwd s) = Inr (1, [], ''Command not found: '' @ hd cmd))
    \<and> (\<forall>e. r = Inl e \<longrightarrow> e \<noteq> FileNotFoundError \<longrightarrow> fst (run_command os cmd cwd s) = Inl e)
    \<and> snd (run_command os cmd cwd s) = s\<lparr>world := w', calls := calls s @ [(cmd, cwd)]\<rparr>"
  using assms
  by (cases r; cases cmd) (auto simp: run_command_def Let_def split: py_exc.splits prod.splits)

text \<open>A missing command, a completed one, and output that cannot be decoded.\<close>

theorem run_command_result_witness:
  "fst (run_command (scripted_os (Inl FileNotFoundError) everything_exists installs_ok 4300)
         [''dart'', ''--version''] None fresh) = Inr (1, [], ''Command not found: dart'')
   \<and> fst (run_command (scripted_os (Inr (0, ''Dart SDK version: 3.10.4'', [])) everything_exists
             installs_ok 4300) [''dart'', ''--version''] None fresh)
       = Inr (0, ''Dart SDK version: 3.10.4'', [])
   \<and> fst (run_command (scripted_os (Inl UnicodeDecodeError) everything_exists installs_ok 4300)
         [''dart'', ''--version''] None fresh) = Inl UnicodeDecodeError"
proof -
  have a: "subprocess_run (scripted_os (Inl FileNotFoundError) everything_exists installs_ok 4300)
      [''dart'', ''--version''] None (world fresh) = (Inl FileNotFoundError, ())"
    by (simp add: scripted_os_def)
  have b: "subprocess_run (scripted_os (Inr (0, ''Dart SDK version: 3.10.4'', [])) everything_exists
      installs_ok 4300) [''dart'', ''--version''] None (world fresh)
      = (Inr (0, ''Dart SDK version: 3.10.4'', []), ())"
    by (simp add: scripted_os_def)
  have c: "subprocess_run (scripted_os (Inl UnicodeDecodeError) everything_exists installs_ok 4300)
      [''dart'', ''--version''] None (world fresh) = (Inl UnicodeDecodeError, ())"
    by (simp add: scripted_os_def)
  from run_command_result [OF a] run_command_result [OF b] run_command_result [OF c]
  show ?thesis by simp
qed

section \<open>Installing one package\<close>

text \<open>
  C9, as the claim has it, fails: \<^verbatim>\<open>install_package_deps\<close> returns a flag and
  nothing with it. When \<^verbatim>\<open>dart pub get\<close> ends with exit code 65 and a message on
  standard error, the value returned is \<^verbatim>\<open>False\<close>, the same value as when standard
  error is empty: no error text is returned.
\<close>

theorem install_package_deps_flag_counterexample:
  "fst (install_package_deps (scripted_os (Inl FileNotFoundError) everything_exists loud_failure 4300)
         [''packages'', ''entidb_sync_client''] fresh) = Inr False
   \<and> fst (install_package_deps (scripted_os (Inl FileNotFoundError) everything_exists silent_failure 4300)
         [''packages'', ''entidb_sync_client''] fresh) = Inr False"
  by (simp add: install_package_deps_def run_command_def scripted_os_def loud_failure_def
      silent_failure_def fresh_def)

text \<open>
  C9, amended. When the launch of \<^verbatim>\<open>dart pub get\<close> comes back with an exit code,
  \<^verbatim>\<open>install_package_deps\<close> returns \<^verbatim>\<open>True\<close> exactly when the code is 0, whatever
  standard output holds, and \<^verbatim>\<open>False\<close> on any other code. The flag is all it
  returns. On a code other than 0 the captured standard error, empty or not, goes into
  the one line the function prints; on code 0 it prints nothing.
\<close>

theorem install_package_deps_flag:
  assumes "subprocess_run os [''dart'', ''pub'', ''get''] (Some package_path) (world s)
             = (Inr (code, stdout, stderr), w')"
  shows "install_package_deps os package_path s
           = (Inr (code = 0),
              s\<lparr>world := w',
                calls := calls s @ [([''dart'', ''pub'', ''get''], Some package_path)],
                out := out s @ (if code = 0 then [] else [Failed stderr])\<rparr>)"
  using assms by (simp add: install_package_deps_def run_command_def emit_def)

text \<open>Exit code 65 with nothing on standard error, and exit code 0.\<close>

theorem install_package_deps_flag_witness:
  "install_package_deps (scripted_os (Inl FileNotFoundError) everything_exists silent_failure 4300)
       [''packages'', ''entidb_sync_client''] fresh
     = (Inr False,
        \<lparr>world = (),
         calls = [([''dart'', ''pub'', ''get''], Some [''packages'', ''entidb_sync_client''])],
         out = [Failed []]\<rparr>)
   \<and> install_package_deps (scripted_os (Inl FileNotFoundError) everything_exists installs_ok 4300)
       [''packages'', ''entidb_sync_client''] fresh
     = (Inr True,
        \<lparr>world = (),
         calls = [([''dart'', ''pub'', ''get''], Some [''packages'', ''entidb_sync_client''])],
         out = []\<rparr>)"
proof -
  have a: "subprocess_run (scripted_os (Inl FileNotFoundError) everything_exists silent_failure 4300)
      [''dart'', ''pub'', ''get''] (Some [''packages'', ''entidb_sync_client'']) (world fresh)
    = (Inr (65, ''Resolving dependencies...'', []), ())"
    by (simp add: scripted_os_def silent_failure_def)
  have b: "subprocess_run (scripted_os (Inl FileNotFoundError) everything_exists installs_ok 4300)
      [''dart'', ''pub'', ''get''] (Some [''packages'', ''entidb_sync_client'']) (world fresh)
    = (Inr (0, ''Got dependencies!'', []), ())"
    by (simp add: scripted_os_def installs_ok_def)
  from install_package_deps_flag [OF a] install_package_deps_flag [OF b]
  show ?thesis by (simp add: fresh_def)
qed

section \<open>Parsing a version\<close>

subsection \<open>\<^verbatim>\<open>int()\<close> on runs of digits\<close>

lemma isdigit_not_int_space: "isdigit c \<Longrightarrow> \<not> int_space c"
  by (auto simp: isdigit_def int_space_def Let_def)

lemma strip_digit_run: "digit_run d \<Longrightarrow> strip d = d"
proof -
  assume d: "digit_run d"
  then obtain c r where c: "d = c # r" "isdigit c"
    by (cases d) (auto simp: digit_run_def)
  then have 1: "dropWhile int_space d = d" by (simp add: isdigit_not_int_space)
  have "isdigit (last d)" using d by (simp add: digit_run_def)
  then have "\<not> int_space (hd (rev d))" using d
    by (simp add: digit_run_def hd_rev isdigit_not_int_space)
  moreover have "rev d \<noteq> []" using c by simp
  ultimately have "dropWhile int_space (rev d) = rev d"
    by (cases "rev d") auto
  with 1 show ?thesis by (simp add: strip_def)
qed

lemma digits_ok_digit_run: "digit_run d \<Longrightarrow> digits_ok d"
  by (induction d rule: digits_ok.induct) (auto simp: digit_run_def isdigit_def)

lemma digit_run_no_sign:
  assumes "digit_run d"
  shows "hd d \<noteq> CHR ''-''" and "hd d \<noteq> CHR ''+''" and "CHR ''_'' \<notin> set d"
  using assms by (cases d; auto simp: digit_run_def isdigit_def)+

lemma py_int_digit_run:
  assumes "digit_run d"
  shows "py_int lim d =
    (if 640 < length d \<and> 0 < lim \<and> lim < length d then Inl ValueError else Inr (dec_value d))"
proof -
  obtain c r where c: "d = c # r" using assms by (cases d) (auto simp: digit_run_def)
  have f: "filter (\<lambda>c. c \<noteq> CHR ''_'') d = d"
    using digit_run_no_sign(3) [OF assms] by (auto simp: filter_id_conv)
  have s: "c \<noteq> CHR ''-''" "c \<noteq> CHR ''+''"
    using digit_run_no_sign(1,2) [OF assms] c by auto
  show ?thesis
    using strip_digit_run [OF assms] digits_ok_digit_run [OF assms] f s
    unfolding py_int_def c by (simp add: Let_def)
qed

lemma dec_value_nonneg_aux:
  "0 \<le> a \<Longrightarrow> \<forall>c \<in> set ds. isdigit c \<Longrightarrow> 0 \<le> foldl (\<lambda>a c. 10 * a + digit_value c) a ds"
proof (induction ds arbitrary: a)
  case Nil
  then show ?case by simp
next
  case (Cons c ds)
  have "0 \<le> digit_value c" using Cons.prems(2) by (simp add: digit_value_def isdigit_def Let_def)
  then have "0 \<le> 10 * a + digit_value c" using Cons.prems(1) by simp
  then show ?case using Cons.IH Cons.prems(2) by simp
qed

lemma dec_value_nonneg: "digit_run d \<Longrightarrow> 0 \<le> dec_value d"
  unfolding dec_value_def by (rule dec_value_nonneg_aux) (auto simp: digit_run_def)

lemma py_int_error: "py_int lim x = Inl e \<Longrightarrow> e = ValueError"
  by (auto simp: py_int_def Let_def split: if_splits prod.splits)

subsection \<open>\<^verbatim>\<open>version_tuple\<close>\<close>

lemma int_each_error: "int_each lim xs = Inl e \<Longrightarrow> e = ValueError"
  by (induction xs arbitrary: e) (auto split: sum.splits dest: py_int_error)

lemma int_each_Inl_iff:
  "int_each lim xs = Inl ValueError \<longleftrightarrow> (\<exists>x \<in> set xs. py_int lim x = Inl ValueError)"
proof (induction xs)
  case Nil
  then show ?case by simp
next
  case (Cons x xs)
  show ?case
  proof (cases "py_int lim x")
    case (Inl e)
    then have "e = ValueError" by (rule py_int_error)
    with Inl show ?thesis by simp
  next
    case (Inr n)
    then show ?thesis using Cons.IH by (auto split: sum.splits dest: int_each_error)
  qed
qed

lemma int_each_Inr_iff:
  "int_each lim xs = Inr t \<longleftrightarrow> map (py_int lim) xs = map Inr t"
proof (induction xs arbitrary: t)
  case Nil
  then show ?case by auto
next
  case (Cons x xs)
  show ?case
  proof (cases "py_int lim x")
    case (Inl e)
    then show ?thesis by (cases t) auto
  next
    case (Inr n)
    show ?thesis
    proof (cases "int_each lim xs")
      case (Inl e)
      then have "map (py_int lim) xs \<noteq> map Inr u" for u using Cons.IH [of u] by simp
      with Inl Inr show ?thesis by (cases t) auto
    next
      case r: (Inr ns)
      then have "map (py_int lim) xs = map Inr ns" using Cons.IH by simp
      with r Inr show ?thesis by (cases t) (auto simp: inj_map_eq_map [OF inj_Inr])
    qed
  qed
qed

subsection \<open>The literals \<^verbatim>\<open>int()\<close> accepts\<close>

lemma join_Cons_Cons: "join sep ((c # g) # rest) = c # join sep (g # rest)"
  by (cases rest) simp_all

lemma digit_run_Cons: "isdigit c \<Longrightarrow> digit_run g \<Longrightarrow> digit_run (c # g)"
  by (simp add: digit_run_def)

lemma digit_run_single: "isdigit c \<Longrightarrow> digit_run [c]"
  by (simp add: digit_run_def)

lemma digits_ok_groups:
  "digits_ok body \<Longrightarrow> \<exists>gs. gs \<noteq> [] \<and> (\<forall>g \<in> set gs. digit_run g) \<and> body = join ''_'' gs"
proof (induction body rule: digits_ok.induct)
  case 1
  then show ?case by simp
next
  case (2 c)
  then have "[[c]] \<noteq> [] \<and> (\<forall>g \<in> set [[c]]. digit_run g) \<and> [c] = join ''_'' [[c]]"
    by (simp add: digit_run_single)
  then show ?case by blast
next
  case (3 c d cs)
  from "3.prems" have c: "isdigit c" by simp
  show ?case
  proof (cases "d = CHR ''_''")
    case True
    with "3.prems" have "digits_ok cs" by simp
    from "3.IH"(1) [OF True this] obtain gs where
      gs: "gs \<noteq> []" "\<forall>g \<in> set gs. digit_run g" "cs = join ''_'' gs" by blast
    then obtain h t where ht: "gs = h # t" by (cases gs) auto
    have "[c] # gs \<noteq> [] \<and> (\<forall>g \<in> set ([c] # gs). digit_run g)
        \<and> c # d # cs = join ''_'' ([c] # gs)"
      using gs c True by (simp add: ht digit_run_single)
    then show ?thesis by blast
  next
    case False
    with "3.prems" have "digits_ok (d # cs)" by simp
    from "3.IH"(2) [OF False this] obtain gs where
      gs: "gs \<noteq> []" "\<forall>g \<in> set gs. digit_run g" "d # cs = join ''_'' gs" by blast
    then obtain g rest where gr: "gs = g # rest" by (cases gs) auto
    have g: "digit_run g" using gs(2) gr by simp
    then obtain e g' where g': "g = e # g'" by (cases g) (auto simp: digit_run_def)
    have "(c # g) # rest \<noteq> [] \<and> (\<forall>g \<in> set ((c # g) # rest). digit_run g)
        \<and> c # d # cs = join ''_'' ((c # g) # rest)"
      using gs c g unfolding gr by (simp add: join_Cons_Cons digit_run_Cons)
    then show ?thesis by blast
  qed
qed

lemma digits_ok_run_underscore:
  assumes "digit_run g"
  shows "digits_ok (g @ CHR ''_'' # rest) = digits_ok rest"
proof -
  have "g \<noteq> []" "\<forall>c \<in> set g. isdigit c" using assms by (auto simp: digit_run_def)
  then show ?thesis
  proof (induction g rule: list_nonempty_induct)
    case (single c)
    then show ?case by simp
  next
    case (cons c g)
    then obtain d g' where g: "g = d # g'" by (cases g) auto
    have "isdigit d" using cons.prems g by simp
    then have "d \<noteq> CHR ''_''" by (auto simp: isdigit_def)
    then show ?case using cons unfolding g by simp
  qed
qed

lemma groups_digits_ok:
  "gs \<noteq> [] \<Longrightarrow> \<forall>g \<in> set gs. digit_run g \<Longrightarrow> digits_ok (join ''_'' gs)"
proof (induction "''_''" gs rule: join.induct)
  case 1
  then show ?case by simp
next
  case (2 p)
  then show ?case by (simp add: digits_ok_digit_run)
next
  case (3 p q ps)
  then show ?case by (simp add: digits_ok_run_underscore)
qed

lemma filter_digit_run: "digit_run g \<Longrightarrow> filter (\<lambda>c. c \<noteq> CHR ''_'') g = g"
  using digit_run_no_sign(3) by (auto simp: filter_id_conv)

lemma filter_join:
  "\<forall>g \<in> set gs. digit_run g \<Longrightarrow> filter (\<lambda>c. c \<noteq> CHR ''_'') (join ''_'' gs) = concat gs"
  by (induction "''_''" gs rule: join.induct) (simp_all add: filter_digit_run)

lemma join_ends:
  "gs \<noteq> [] \<Longrightarrow> \<forall>g \<in> set gs. digit_run g \<Longrightarrow>
     join ''_'' gs \<noteq> [] \<and> isdigit (hd (join ''_'' gs)) \<and> isdigit (last (join ''_'' gs))"
proof (induction "''_''" gs rule: join.induct)
  case 1
  then show ?case by simp
next
  case (2 p)
  then show ?case by (cases p) (auto simp: digit_run_def)
next
  case (3 p q ps)
  then have "digit_run p" by simp
  then obtain c p' where "p = c # p'" "isdigit c" by (cases p) (auto simp: digit_run_def)
  then show ?case using 3 by simp
qed

lemma strip_decomp:
  "\<exists>a b. x = a @ strip x @ b \<and> (\<forall>c \<in> set a. int_space c) \<and> (\<forall>c \<in> set b. int_space c)"
proof -
  let ?a = "takeWhile int_space x" and ?y = "dropWhile int_space x"
  let ?b = "rev (takeWhile int_space (rev ?y))"
  have "rev (takeWhile int_space (rev ?y) @ dropWhile int_space (rev ?y)) = rev (rev ?y)"
    by (simp only: takeWhile_dropWhile_id)
  then have "rev (dropWhile int_space (rev ?y)) @ ?b = ?y"
    by (simp only: rev_append rev_rev_ident)
  then have y: "?y = strip x @ ?b" by (simp only: strip_def)
  have "x = ?a @ ?y" by (simp only: takeWhile_dropWhile_id)
  with y have "x = ?a @ strip x @ ?b" by simp
  moreover have "\<forall>c \<in> set ?a. int_space c" by (auto dest: set_takeWhileD)
  moreover have "\<forall>c \<in> set ?b. int_space c" by (auto dest: set_takeWhileD)
  ultimately show ?thesis by blast
qed

lemma strip_sandwich:
  assumes "\<forall>c \<in> set a. int_space c" and "\<forall>c \<in> set b. int_space c"
    and "t \<noteq> []" and "\<not> int_space (hd t)" and "\<not> int_space (last t)"
  shows "strip (a @ t @ b) = t"
proof -
  have "dropWhile int_space (a @ t @ b) = dropWhile int_space (t @ b)"
    by (rule dropWhile_append2) (use assms(1) in auto)
  also have "\<dots> = t @ b" using assms(3,4) by (cases t) simp_all
  finally have 1: "dropWhile int_space (a @ t @ b) = t @ b" .
  have "rev t \<noteq> []" "\<not> int_space (hd (rev t))" using assms(3,5) by (simp_all add: hd_rev)
  then have 2: "dropWhile int_space (rev t) = rev t" by (cases "rev t") auto
  have "dropWhile int_space (rev b @ rev t) = dropWhile int_space (rev t)"
    by (rule dropWhile_append2) (use assms(2) in auto)
  with 1 2 show ?thesis by (simp add: strip_def)
qed

lemma py_int_strip:
  "py_int lim x =
     (let t = strip x;
          body = (if t \<noteq> [] \<and> (hd t = CHR ''-'' \<or> hd t = CHR ''+'') then tl t else t);
          ds = filter (\<lambda>c. c \<noteq> CHR ''_'') body
      in if \<not> digits_ok body then Inl ValueError
         else if 640 < length ds \<and> 0 < lim \<and> lim < length ds then Inl ValueError
         else Inr ((if t \<noteq> [] \<and> hd t = CHR ''-'' then - 1 else 1) * dec_value ds))"
  by (cases "strip x") (auto simp: py_int_def Let_def)

lemma sign_not_digit: "isdigit c \<Longrightarrow> c \<noteq> CHR ''-'' \<and> c \<noteq> CHR ''+''"
  by (auto simp: isdigit_def)

lemma py_int_of_literal:
  assumes "int_literal x neg gs"
  shows "py_int lim x =
    (if within_limit lim (length (concat gs)) then Inr (int_value neg gs) else Inl ValueError)"
proof -
  from assms obtain a sgn b where x: "x = a @ sgn @ join ''_'' gs @ b"
    and a: "\<forall>c \<in> set a. int_space c" and b: "\<forall>c \<in> set b. int_space c"
    and sgn: "if neg then sgn = ''-'' else sgn = [] \<or> sgn = ''+''"
    and gs: "gs \<noteq> []" "\<forall>g \<in> set gs. digit_run g"
    unfolding int_literal_def by blast
  let ?body = "join ''_'' gs"
  let ?t = "sgn @ ?body"
  from join_ends [OF gs] have e: "?body \<noteq> []" "isdigit (hd ?body)" "isdigit (last ?body)"
    by simp_all
  have s: "sgn = [] \<or> sgn = ''+'' \<or> sgn = ''-''" using sgn by (cases neg) auto
  have "\<not> int_space CHR ''+''" "\<not> int_space CHR ''-''" by (simp_all add: int_space_def)
  then have h: "\<not> int_space (hd ?t)" using s e isdigit_not_int_space by (auto simp: hd_append)
  have l: "\<not> int_space (last ?t)" using e isdigit_not_int_space by simp
  have "?t \<noteq> []" using e by simp
  from strip_sandwich [OF a b this h l] have st: "strip x = ?t" by (simp add: x)
  have ok: "digits_ok ?body" using gs by (rule groups_digits_ok)
  have f: "filter (\<lambda>c. c \<noteq> CHR ''_'') ?body = concat gs" using gs(2) by (rule filter_join)
  have nd: "hd ?body \<noteq> CHR ''-''" "hd ?body \<noteq> CHR ''+''" using sign_not_digit [OF e(2)] by simp_all
  show ?thesis
  proof (cases neg)
    case True
    then have "sgn = ''-''" using sgn by simp
    then show ?thesis unfolding py_int_strip st using ok f True
      by (auto simp: Let_def within_limit_def int_value_def)
  next
    case False
    then consider "sgn = []" | "sgn = ''+''" using sgn by auto
    then show ?thesis
    proof cases
      case 1
      then show ?thesis unfolding py_int_strip st using ok f False e(1) nd
        by (auto simp: Let_def within_limit_def int_value_def)
    next
      case 2
      then show ?thesis unfolding py_int_strip st using ok f False
        by (auto simp: Let_def within_limit_def int_value_def)
    qed
  qed
qed

lemma py_int_literal:
  assumes "py_int lim x = Inr n"
  shows "int_accepts lim x n"
proof -
  define t where "t = strip x"
  define signed where "signed = (t \<noteq> [] \<and> (hd t = CHR ''-'' \<or> hd t = CHR ''+''))"
  define body where "body = (if signed then tl t else t)"
  define sgn where "sgn = (if signed then [hd t] else [])"
  define neg where "neg = (t \<noteq> [] \<and> hd t = CHR ''-'')"
  have ok: "digits_ok body" using assms unfolding py_int_strip body_def signed_def t_def
    by (auto simp: Let_def split: if_splits)
  from digits_ok_groups [OF this] obtain gs where
    gs: "gs \<noteq> []" "\<forall>g \<in> set gs. digit_run g" and body: "body = join ''_'' gs" by blast
  obtain a b where x: "x = a @ t @ b" and a: "\<forall>c \<in> set a. int_space c"
    and b: "\<forall>c \<in> set b. int_space c" unfolding t_def using strip_decomp by blast
  have "t = sgn @ body" unfolding sgn_def body_def signed_def by (cases t) auto
  then have "x = a @ sgn @ join ''_'' gs @ b" using x body by simp
  moreover have "if neg then sgn = ''-'' else sgn = [] \<or> sgn = ''+''"
    unfolding neg_def sgn_def signed_def by auto
  ultimately have lit: "int_literal x neg gs"
    unfolding int_literal_def using a b gs by blast
  from py_int_of_literal [OF this, of lim] assms
  have "within_limit lim (length (concat gs)) \<and> n = int_value neg gs"
    by (auto split: if_splits)
  with lit show ?thesis unfolding int_accepts_def by blast
qed

lemma py_int_iff: "(py_int lim x = Inr n) = int_accepts lim x n"
proof
  assume "py_int lim x = Inr n"
  then show "int_accepts lim x n" by (rule py_int_literal)
next
  assume "int_accepts lim x n"
  then obtain neg gs where "int_literal x neg gs" "within_limit lim (length (concat gs))"
    "n = int_value neg gs" unfolding int_accepts_def by blast
  then show "py_int lim x = Inr n" using py_int_of_literal [of x neg gs lim] by simp
qed

lemma py_int_fails_iff: "(py_int lim x = Inl ValueError) = (\<forall>n. \<not> int_accepts lim x n)"
proof -
  have "(py_int lim x = Inl ValueError) = (\<forall>n. py_int lim x \<noteq> Inr n)"
    by (cases "py_int lim x") (auto dest: py_int_error)
  then show ?thesis by (simp add: py_int_iff)
qed

lemma int_each_accepts: "(int_each lim xs = Inr t) = list_all2 (int_accepts lim) xs t"
proof -
  have "(map (py_int lim) xs = map Inr t) = list_all2 (\<lambda>x n. py_int lim x = Inr n) xs t"
    by (induction xs arbitrary: t) (auto simp: list_all2_Cons1 map_eq_Cons_conv)
  then show ?thesis by (simp add: int_each_Inr_iff py_int_iff)
qed

text \<open>
  C7, as the claim has it, fails: \<^verbatim>\<open>int()\<close> takes a sign, so a negative component
  parses. \<^verbatim>\<open>version_tuple("3.-1.0")\<close> is \<^verbatim>\<open>(3, -1, 0)\<close>.
\<close>

theorem version_tuple_negative_counterexample:
  "version_tuple 4300 ''3.-1.0'' = Inr [3, - 1, 0]"
  by code_simp

text \<open>
  C7, amended. \<^verbatim>\<open>version_tuple\<close> raises exactly when one of the pieces between the
  dots is not a literal \<^verbatim>\<open>int()\<close> accepts, and then it raises \<^verbatim>\<open>ValueError\<close>.
  \<^verbatim>\<open>int()\<close> accepts white space, then an optional sign \<^verbatim>\<open>+\<close> or \<^verbatim>\<open>-\<close>, then
  one or more digits, where single underscores may stand between digits, then white
  space; with the digit limit on, a literal of more than 640 digits may have no more
  digits than the limit. On every other input \<^verbatim>\<open>version_tuple\<close> returns the tuple of
  the values of the pieces, negative where the sign is \<^verbatim>\<open>-\<close>.
\<close>

theorem version_tuple_fails_iff:
  "(version_tuple lim v = Inl e)
      = (e = ValueError \<and> (\<exists>x \<in> set (str_split CHR ''.'' v). \<forall>n. \<not> int_accepts lim x n))
   \<and> (version_tuple lim v = Inr t) = list_all2 (int_accepts lim) (str_split CHR ''.'' v) t"
proof -
  have "(version_tuple lim v = Inl e) = (e = ValueError \<and> version_tuple lim v = Inl ValueError)"
    unfolding version_tuple_def using int_each_error by blast
  then show ?thesis
    unfolding version_tuple_def by (simp add: int_each_Inl_iff py_int_fails_iff int_each_accepts)
qed

lemma split_3_x_1: "str_split CHR ''.'' ''3.x.1'' = [''3'', ''x'', ''1'']"
  by code_simp

lemma split_3_10_4: "str_split CHR ''.'' ''3.10.4'' = [''3'', ''10'', ''4'']"
  by code_simp

lemma py_int_x: "py_int 4300 ''x'' = Inl ValueError"
  by code_simp

lemma dec_values_3_10_4:
  "dec_value ''3'' = 3" "dec_value ''10'' = 10" "dec_value ''4'' = 4" "dec_value ''1'' = 1"
  by code_simp+

lemma split_padded: "str_split CHR ''.'' '' +1_0.-2. 3'' = ['' +1_0'', ''-2'', '' 3'']"
  by code_simp

lemma py_int_padded:
  "py_int 4300 '' +1_0'' = Inr 10" "py_int 4300 ''-2'' = Inr (- 2)" "py_int 4300 '' 3'' = Inr 3"
  by code_simp+

text \<open>A component that is no number; components with white space, signs and an underscore.\<close>

theorem version_tuple_fails_iff_witness:
  "version_tuple 4300 ''3.x.1'' = Inl ValueError
   \<and> version_tuple 4300 '' +1_0.-2. 3'' = Inr [10, - 2, 3]"
proof -
  have "\<forall>n. \<not> int_accepts 4300 ''x'' n" using py_int_x by (simp add: py_int_fails_iff)
  then have a: "\<exists>x \<in> set (str_split CHR ''.'' ''3.x.1''). \<forall>n. \<not> int_accepts 4300 x n"
    by (simp add: split_3_x_1)
  have b: "list_all2 (int_accepts 4300) (str_split CHR ''.'' '' +1_0.-2. 3'') [10, - 2, 3]"
    using py_int_padded by (simp add: split_padded py_int_iff)
  from version_tuple_fails_iff [of 4300 "''3.x.1''" ValueError "[]"]
    version_tuple_fails_iff [of 4300 "'' +1_0.-2. 3''" ValueError "[10, - 2, 3]"] a b
  show ?thesis by blast
qed

section \<open>Detecting the version\<close>

subsection \<open>The search and the pattern in words\<close>

lemma rmatch_dart_None_iff: "rmatch dart_pattern t g = None \<longleftrightarrow> (\<forall>v. \<not> version_at t v)"
  using rmatch_dart_iff [of t g] by (cases "rmatch dart_pattern t g") auto

lemma search_None_iff:
  "re_search dart_pattern t = None \<longleftrightarrow> (\<forall>i \<le> length t. \<forall>v. \<not> version_at (drop i t) v)"
  by (simp add: re_search_None_iff rmatch_dart_None_iff)

lemma search_Some_iff:
  "re_search dart_pattern t = Some v \<longleftrightarrow>
     (\<exists>i \<le> length t. version_at (drop i t) v \<and> (\<forall>j < i. \<forall>u. \<not> version_at (drop j t) u))"
  by (simp add: re_search_Some_iff rmatch_dart_None_iff rmatch_dart_iff)

lemma check_dart_version_completed:
  assumes "run_command os [''dart'', ''--version''] None s = (Inr (code, stdout, stderr), s')"
  shows "check_dart_version os s =
    (Inr (if code \<noteq> 0 then None else re_search dart_pattern (stdout @ stderr)), s')"
  using assms by (simp add: check_dart_version_def Let_def split: option.splits)

text \<open>
  C4. When the version query comes back with an exit code, \<^verbatim>\<open>check_dart_version\<close>
  returns \<^verbatim>\<open>None\<close> if the code is not 0, and also if it is 0 and no position of
  standard output followed by standard error starts a match of the version pattern.
  If the code is 0 and a match starts at position \<open>i\<close> and at no position before it,
  the version of that match is returned.
\<close>

theorem check_dart_version_result:
  assumes "run_command os [''dart'', ''--version''] None s = (Inr (code, stdout, stderr), s')"
  shows "(code \<noteq> 0 \<longrightarrow> check_dart_version os s = (Inr None, s'))
    \<and> (code = 0 \<longrightarrow> (\<forall>i \<le> length (stdout @ stderr). \<forall>v. \<not> version_at (drop i (stdout @ stderr)) v)
          \<longrightarrow> check_dart_version os s = (Inr None, s'))
    \<and> (code = 0 \<longrightarrow> i \<le> length (stdout @ stderr) \<longrightarrow> version_at (drop i (stdout @ stderr)) v
          \<longrightarrow> (\<forall>j < i. \<forall>u. \<not> version_at (drop j (stdout @ stderr)) u)
          \<longrightarrow> check_dart_version os s = (Inr (Some v), s'))"
proof -
  let ?t = "stdout @ stderr"
  have "re_search dart_pattern ?t = None"
    if "\<forall>i \<le> length ?t. \<forall>v. \<not> version_at (drop i ?t) v"
    using that by (simp only: search_None_iff)
  moreover have "re_search dart_pattern ?t = Some v"
    if "i \<le> length ?t" "version_at (drop i ?t) v" "\<forall>j < i. \<forall>u. \<not> version_at (drop j ?t) u"
    using that unfolding search_Some_iff by blast
  ultimately show ?thesis
    unfolding check_dart_version_completed [OF assms] by auto
qed

lemma run_probe_scripted:
  "run_command (scripted_os (Inr c) present install lim) [''dart'', ''--version''] None s
     = (Inr c, s\<lparr>world := (), calls := calls s @ [([''dart'', ''--version''], None)]\<rparr>)"
  by (cases c) (simp add: run_command_def scripted_os_def)

lemma rmatch_banner:
  "rmatch dart_pattern ''Dart SDK version: 3.10.4 (stable) on linux_x64'' [] = Some ''3.10.4''"
  by code_simp

lemma search_usage: "re_search dart_pattern ''Usage: dart <command> [arguments]'' = None"
  by code_simp

text \<open>
  A version on standard error, a usage message spread over both streams, and a
  version printed by a command that exits with 254.
\<close>

theorem check_dart_version_result_witness:
  "check_dart_version
       (scripted_os (Inr (0, [], ''Dart SDK version: 3.10.4 (stable) on linux_x64''))
          everything_exists installs_ok 4300) fresh
     = (Inr (Some ''3.10.4''),
        fresh\<lparr>world := (), calls := calls fresh @ [([''dart'', ''--version''], None)]\<rparr>)
   \<and> check_dart_version
       (scripted_os (Inr (0, ''Usage: dart <command> '', ''[arguments]''))
          everything_exists installs_ok 4300) fresh
     = (Inr None, fresh\<lparr>world := (), calls := calls fresh @ [([''dart'', ''--version''], None)]\<rparr>)
   \<and> check_dart_version
       (scripted_os (Inr (254, ''Dart SDK version: 3.10.4 (stable) on linux_x64'', []))
          everything_exists installs_ok 4300) fresh
     = (Inr None, fresh\<lparr>world := (), calls := calls fresh @ [([''dart'', ''--version''], None)]\<rparr>)"
proof -
  have at: "version_at (drop 0 ([] @ ''Dart SDK version: 3.10.4 (stable) on linux_x64'')) ''3.10.4''"
    using rmatch_banner by (simp add: rmatch_dart_iff)
  have none: "\<forall>i \<le> length (''Usage: dart <command> '' @ ''[arguments]'').
      \<forall>v. \<not> version_at (drop i (''Usage: dart <command> '' @ ''[arguments]'')) v"
    using search_usage by (simp only: search_None_iff [symmetric] append.simps)
  from check_dart_version_result
         [OF run_probe_scripted
               [of "(0, [], ''Dart SDK version: 3.10.4 (stable) on linux_x64'')"
                   everything_exists installs_ok 4300 fresh],
          where i = 0 and v = "''3.10.4''"] at
  have a: "check_dart_version
       (scripted_os (Inr (0, [], ''Dart SDK version: 3.10.4 (stable) on linux_x64''))
          everything_exists installs_ok 4300) fresh
     = (Inr (Some ''3.10.4''),
        fresh\<lparr>world := (), calls := calls fresh @ [([''dart'', ''--version''], None)]\<rparr>)"
    by simp
  from check_dart_version_result
         [OF run_probe_scripted
               [of "(0, ''Usage: dart <command> '', ''[arguments]'')"
                   everything_exists installs_ok 4300 fresh]] none
  have b: "check_dart_version
       (scripted_os (Inr (0, ''Usage: dart <command> '', ''[arguments]''))
          everything_exists installs_ok 4300) fresh
     = (Inr None, fresh\<lparr>world := (), calls := calls fresh @ [([''dart'', ''--version''], None)]\<rparr>)"
    by blast
  from check_dart_version_result
         [OF run_probe_scripted
               [of "(254, ''Dart SDK version: 3.10.4 (stable) on linux_x64'', [])"
                   everything_exists installs_ok 4300 fresh]]
  have c: "check_dart_version
       (scripted_os (Inr (254, ''Dart SDK version: 3.10.4 (stable) on linux_x64'', []))
          everything_exists installs_ok 4300) fresh
     = (Inr None, fresh\<lparr>world := (), calls := calls fresh @ [([''dart'', ''--version''], None)]\<rparr>)"
    by simp
  from a b c show ?thesis by blast
qed

section \<open>From the probe to the tuple\<close>

lemma split_from_plain: "sep \<notin> set a \<Longrightarrow> split_from sep cur a = [cur @ a]"
  by (induction a arbitrary: cur) auto

lemma split_from_sep:
  "sep \<notin> set a \<Longrightarrow> split_from sep cur (a @ sep # rest) = (cur @ a) # split_from sep [] rest"
  by (induction a arbitrary: cur) auto

lemma digit_run_no_dot: "digit_run d \<Longrightarrow> CHR ''.'' \<notin> set d"
  by (auto simp: digit_run_def isdigit_def)

lemma str_split_version:
  assumes "digit_run d1" "digit_run d2" "digit_run d3"
  shows "str_split CHR ''.'' (d1 @ ''.'' @ d2 @ ''.'' @ d3) = [d1, d2, d3]"
  using assms [THEN digit_run_no_dot]
  by (simp add: str_split_def split_from_sep split_from_plain)

lemma version_tuple_runs:
  assumes "digit_run d1" "digit_run d2" "digit_run d3"
    and "lim = 0 \<or> (length d1 \<le> lim \<and> length d2 \<le> lim \<and> length d3 \<le> lim)"
  shows "version_tuple lim (d1 @ ''.'' @ d2 @ ''.'' @ d3) = Inr [dec_value d1, dec_value d2, dec_value d3]"
  using assms(4) unfolding version_tuple_def str_split_version [OF assms(1-3)]
  by (auto simp: py_int_digit_run [OF assms(1)] py_int_digit_run [OF assms(2)]
      py_int_digit_run [OF assms(3)])

lemma version_tuple_long_run:
  assumes "digit_run d1" "digit_run d2" "digit_run d3"
    and "640 < length d3" "0 < lim" "lim < length d3"
  shows "version_tuple lim (d1 @ ''.'' @ d2 @ ''.'' @ d3) = Inl ValueError"
  using assms(4-) unfolding version_tuple_def str_split_version [OF assms(1-3)]
  by (auto simp: py_int_digit_run [OF assms(1)] py_int_digit_run [OF assms(2)]
      py_int_digit_run [OF assms(3)] split: sum.splits)

lemma probe_some_search:
  assumes "fst (check_dart_version os s) = Inr (Some v)"
  shows "\<exists>t. re_search dart_pattern t = Some v"
  using assms
  by (auto simp: check_dart_version_def Let_def split: prod.splits sum.splits if_splits option.splits)

lemma version_at_shape:
  assumes "version_at t v"
  shows "\<exists>d1 d2 d3. v = d1 @ ''.'' @ d2 @ ''.'' @ d3 \<and> digit_run d1 \<and> digit_run d2 \<and> digit_run d3"
  using assms unfolding version_at_def by blast

lemma check_dart_version_world:
  "world s = world s2 \<Longrightarrow> fst (check_dart_version os s) = fst (check_dart_version os s2)"
  by (auto simp: check_dart_version_def run_command_def Let_def
      split: prod.splits sum.splits py_exc.splits list.splits option.splits)

lemma check_dart_version_calls:
  "calls (snd (check_dart_version os s)) = calls s @ [([''dart'', ''--version''], None)]"
  by (auto simp: check_dart_version_def run_command_def Let_def
      split: prod.splits sum.splits py_exc.splits list.splits option.splits)


lemma emit_simps [simp]:
  "calls (emit ls s) = calls s" "out (emit ls s) = out s @ ls" "world (emit ls s) = world s"
  by (simp_all add: emit_def)

lemma probe_scripted:
  "fst (check_dart_version (scripted_os (Inr (0, stdout, stderr)) present install lim) s)
     = Inr (re_search dart_pattern (stdout @ stderr))"
  by (simp add: check_dart_version_completed [OF run_probe_scripted])

lemma digit_run_ones: "digit_run (replicate (Suc n) CHR ''1'')"
  by (simp add: digit_run_def isdigit_def)

lemma probe_long_version:
  "fst (check_dart_version long_version_os s)
     = Inr (Some (''1.1.'' @ replicate 4301 CHR ''1''))"
proof -
  let ?d = "replicate 4301 CHR ''1''"
  let ?t = "''Dart SDK version: 1.1.'' @ ?d"
  have d: "digit_run ?d" using digit_run_ones [of 4300] by simp
  have one: "digit_run ''1''" by (simp add: digit_run_def isdigit_def)
  have "version_at ?t (''1'' @ ''.'' @ ''1'' @ ''.'' @ ?d)"
    unfolding version_at_def
    apply (rule exI [of _ "'' ''"], rule exI [of _ "''1''"], rule exI [of _ "''1''"],
        rule exI [of _ ?d], rule exI [of _ "[]"])
    using d one by (simp add: version_label_def run_ends_def isspace_def)
  then have "rmatch dart_pattern ?t [] = Some (''1.1.'' @ ?d)"
    by (simp add: rmatch_dart_iff)
  moreover have "?t = CHR ''D'' # (''art SDK version: 1.1.'' @ ?d)" by simp
  ultimately have "re_search dart_pattern ?t = Some (''1.1.'' @ ?d)"
    by (metis re_search.simps(2) option.simps(5))
  then show ?thesis
    unfolding long_version_os_def probe_scripted by (simp only: append_Nil2)
qed

lemma version_tuple_long_version:
  "version_tuple 4300 (''1.1.'' @ replicate 4301 CHR ''1'') = Inl ValueError"
proof -
  let ?d = "replicate 4301 CHR ''1''"
  have d: "digit_run ?d" using digit_run_ones [of 4300] by simp
  have one: "digit_run ''1''" by (simp add: digit_run_def isdigit_def)
  have "version_tuple 4300 (''1'' @ ''.'' @ ''1'' @ ''.'' @ ?d) = Inl ValueError"
    by (rule version_tuple_long_run [OF one one d]) simp_all
  then show ?thesis by simp
qed

text \<open>
  C10, as the claim has it, fails: the probe's version is three runs of digits, but
  \<^verbatim>\<open>int()\<close> refuses a run longer than the interpreter's digit limit. With the
  limit at its default, 4300, a version whose last number has 4301 digits passes the
  probe, and \<^verbatim>\<open>version_tuple\<close> raises \<^verbatim>\<open>ValueError\<close> on it, which leaves
  \<^verbatim>\<open>main\<close>.
\<close>

theorem probe_version_over_limit_counterexample:
  "fst (check_dart_version long_version_os fresh) = Inr (Some (''1.1.'' @ replicate 4301 CHR ''1''))
   \<and> version_tuple (int_max_str_digits long_version_os) (''1.1.'' @ replicate 4301 CHR ''1'')
       = Inl ValueError
   \<and> fst (main long_version_os [] ()) = Inl ValueError"
proof -
  let ?s0 = "\<lparr>world = (), calls = [],
                out = [Text ''EntiDB Sync - Development Setup'',
                       Text ''================================'',
                       Platform, Text [], Text ''Checking Dart SDK version...'']\<rparr>"
  have lim: "int_max_str_digits long_version_os = 4300"
    by (simp add: long_version_os_def scripted_os_def)
  obtain r s1 where c: "check_dart_version long_version_os ?s0 = (r, s1)"
    by (cases "check_dart_version long_version_os ?s0")
  then have r: "r = Inr (Some (''1.1.'' @ replicate 4301 CHR ''1''))"
    using probe_long_version [of ?s0] by simp
  have "fst (main long_version_os [] ()) = Inl ValueError"
    unfolding main_def Let_def c r lim using version_tuple_long_version by simp
  then show ?thesis using probe_long_version [of fresh] version_tuple_long_version lim by simp
qed

text \<open>
  C10, amended. A version the probe returns is three non-empty runs of digits
  separated by two dots, and they are the three pieces \<^verbatim>\<open>split(".")\<close> finds. If the
  digit limit is off, or no run has more digits than the limit, \<^verbatim>\<open>version_tuple\<close>
  does not raise on it and gives the three decimal values, none of them negative.
\<close>

theorem probe_version_parses:
  assumes "fst (check_dart_version os s) = Inr (Some v)"
  shows "\<exists>d1 d2 d3. v = d1 @ ''.'' @ d2 @ ''.'' @ d3
      \<and> digit_run d1 \<and> digit_run d2 \<and> digit_run d3
      \<and> str_split CHR ''.'' v = [d1, d2, d3]
      \<and> ((lim = 0 \<or> (length d1 \<le> lim \<and> length d2 \<le> lim \<and> length d3 \<le> lim)) \<longrightarrow>
            version_tuple lim v = Inr [dec_value d1, dec_value d2, dec_value d3]
            \<and> 0 \<le> dec_value d1 \<and> 0 \<le> dec_value d2 \<and> 0 \<le> dec_value d3)"
proof -
  from probe_some_search [OF assms] obtain t where "re_search dart_pattern t = Some v" ..
  then obtain i where "version_at (drop i t) v" unfolding search_Some_iff by blast
  from version_at_shape [OF this] obtain d1 d2 d3 where
    v: "v = d1 @ ''.'' @ d2 @ ''.'' @ d3" and d: "digit_run d1" "digit_run d2" "digit_run d3"
    by blast
  have "str_split CHR ''.'' v = [d1, d2, d3]"
    unfolding v using d by (rule str_split_version)
  moreover have "version_tuple lim v = Inr [dec_value d1, dec_value d2, dec_value d3]"
    if "lim = 0 \<or> (length d1 \<le> lim \<and> length d2 \<le> lim \<and> length d3 \<le> lim)"
    unfolding v using d that by (rule version_tuple_runs)
  moreover have "0 \<le> dec_value d1" "0 \<le> dec_value d2" "0 \<le> dec_value d3"
    using d by (auto intro: dec_value_nonneg)
  ultimately show ?thesis using v d by blast
qed

lemma probe_3_10_4:
  "fst (check_dart_version
     (scripted_os (Inr (0, ''Dart SDK version: 3.10.4 (stable) on linux_x64'', []))
        everything_exists installs_ok 4300) fresh) = Inr (Some ''3.10.4'')"
  by code_simp

theorem probe_version_parses_witness:
  "fst (check_dart_version
     (scripted_os (Inr (0, ''Dart SDK version: 3.10.4 (stable) on linux_x64'', []))
        everything_exists installs_ok 4300) fresh) = Inr (Some ''3.10.4'')
   \<and> version_tuple 4300 ''3.10.4'' = Inr [3, 10, 4]"
proof -
  from probe_version_parses [OF probe_3_10_4, of 4300] obtain d1 d2 d3 where
    s: "str_split CHR ''.'' ''3.10.4'' = [d1, d2, d3]"
    and t: "(4300 = (0::nat) \<or> (length d1 \<le> 4300 \<and> length d2 \<le> 4300 \<and> length d3 \<le> 4300)) \<longrightarrow>
        version_tuple 4300 ''3.10.4'' = Inr [dec_value d1, dec_value d2, dec_value d3]"
    by blast
  from s have d: "d1 = ''3''" "d2 = ''10''" "d3 = ''4''" by (simp_all add: split_3_10_4)
  from t show ?thesis unfolding d using probe_3_10_4 by (simp add: dec_values_3_10_4)
qed

section \<open>Ordering versions\<close>

subsection \<open>Versions of any number of components\<close>







subsection \<open>The order of the numbers\<close>



subsection \<open>Tuples of another length than the minimum\<close>







section \<open>The script as a whole\<close>

text \<open>
  C2. If the probe, run in the world the script starts in, returns \<^verbatim>\<open>None\<close>,
  \<^verbatim>\<open>main\<close> returns 1 and the version query is the only command it has launched.
\<close>

theorem main_toolchain_absent:
  assumes "world s = w" and "fst (check_dart_version os s) = Inr None"
  shows "fst (main os repo_root w) = Inr 1
    \<and> calls (snd (main os repo_root w)) = [([''dart'', ''--version''], None)]"
proof -
  let ?s0 = "\<lparr>world = w, calls = [],
                out = [Text ''EntiDB Sync - Development Setup'',
                       Text ''================================'',
                       Platform, Text [], Text ''Checking Dart SDK version...'']\<rparr>"
  obtain r s1 where c: "check_dart_version os ?s0 = (r, s1)" by (cases "check_dart_version os ?s0")
  have "fst (check_dart_version os ?s0) = Inr None"
    using check_dart_version_world [of ?s0 s os] assms by simp
  then have r: "r = Inr None" using c by simp
  have "calls s1 = [([''dart'', ''--version''], None)]"
    using check_dart_version_calls [of os ?s0] c by simp
  then show ?thesis unfolding main_def Let_def c r by simp
qed

text \<open>\<^verbatim>\<open>dart\<close> is not installed.\<close>

theorem main_toolchain_absent_witness:
  "fst (main (scripted_os (Inl FileNotFoundError) everything_exists installs_ok 4300) [] ()) = Inr 1
   \<and> calls (snd (main (scripted_os (Inl FileNotFoundError) everything_exists installs_ok 4300) [] ()))
       = [([''dart'', ''--version''], None)]"
proof -
  have "fst (check_dart_version (scripted_os (Inl FileNotFoundError) everything_exists installs_ok 4300) fresh)
      = Inr None"
    by (simp add: check_dart_version_def run_command_def scripted_os_def fresh_def)
  moreover have "world fresh = ()" by simp
  ultimately show ?thesis by (rule main_toolchain_absent [rotated])
qed

text \<open>
  C3. If the probe returns a version whose tuple is below \<^verbatim>\<open>(3, 10, 1)\<close>,
  \<^verbatim>\<open>main\<close> returns 1 and the version query is the only command it has launched.
\<close>

theorem main_version_too_low:
  assumes "world s = w" and "fst (check_dart_version os s) = Inr (Some v)"
    and "version_tuple (int_max_str_digits os) v = Inr t" and "tuple_lt t min_version"
  shows "fst (main os repo_root w) = Inr 1
    \<and> calls (snd (main os repo_root w)) = [([''dart'', ''--version''], None)]"
proof -
  let ?s0 = "\<lparr>world = w, calls = [],
                out = [Text ''EntiDB Sync - Development Setup'',
                       Text ''================================'',
                       Platform, Text [], Text ''Checking Dart SDK version...'']\<rparr>"
  obtain r s1 where c: "check_dart_version os ?s0 = (r, s1)" by (cases "check_dart_version os ?s0")
  have "fst (check_dart_version os ?s0) = Inr (Some v)"
    using check_dart_version_world [of ?s0 s os] assms(1,2) by simp
  then have r: "r = Inr (Some v)" using c by simp
  have "calls s1 = [([''dart'', ''--version''], None)]"
    using check_dart_version_calls [of os ?s0] c by simp
  then show ?thesis unfolding main_def Let_def c r using assms(3,4) by simp
qed

lemma probe_3_9_9:
  "fst (check_dart_version
     (scripted_os (Inr (0, ''Dart SDK version: 3.9.9 (stable) on linux_x64'', []))
        everything_exists installs_ok 4300) fresh) = Inr (Some ''3.9.9'')"
  by code_simp

lemma version_tuple_3_9_9: "version_tuple 4300 ''3.9.9'' = Inr [3, 9, 9]"
  by code_simp

text \<open>The SDK is at 3.9.9.\<close>

theorem main_version_too_low_witness:
  "fst (main (scripted_os (Inr (0, ''Dart SDK version: 3.9.9 (stable) on linux_x64'', []))
              everything_exists installs_ok 4300) [] ()) = Inr 1
   \<and> calls (snd (main (scripted_os (Inr (0, ''Dart SDK version: 3.9.9 (stable) on linux_x64'', []))
              everything_exists installs_ok 4300) [] ()))
       = [([''dart'', ''--version''], None)]"
proof -
  have w: "world fresh = ()" by simp
  have t: "version_tuple (int_max_str_digits
      (scripted_os (Inr (0, ''Dart SDK version: 3.9.9 (stable) on linux_x64'', []))
        everything_exists installs_ok 4300)) ''3.9.9'' = Inr [3, 9, 9]"
    using version_tuple_3_9_9 by (simp add: scripted_os_def)
  have lt: "tuple_lt [3, 9, 9] min_version" by (simp add: min_version_def)
  show ?thesis by (rule main_version_too_low [OF w probe_3_9_9 t lt])
qed

subsection \<open>The loop over the packages\<close>










end
